theory Spec2Isabelle
  imports Main "HOL-Library.Word"
begin

section \<open>The conversation exchange of the web client (App.js and the api service)\<close>

text \<open>
  The React component \<open>App\<close> keeps three state variables (\<open>conversation\<close>,
  \<open>query\<close>, \<open>isProcessing\<close>) and talks to the backend through
  \<open>api.processQuery\<close>. The model below follows the two source files line by line:
  JavaScript values as a datatype, the component state as a record, the \<open>async\<close>
  handler split at its single \<open>await\<close> into the part that runs at the click and the
  part that runs when the promise settles, exceptions as values of a sum type, and the
  \<open>disabled\<close> attributes of the rendered controls as the guards of an event dispatcher.
\<close>

subsection \<open>JavaScript strings and values\<close>

text \<open>
  A JavaScript string is a sequence of UTF-16 code units. String literals of the source
  are ASCII and are written through \<open>ascii\<close>.
\<close>

type_synonym jsstring = "16 word list"

definition ascii :: "string \<Rightarrow> jsstring" where
  "ascii cs = map (\<lambda>c. of_nat (of_char c)) cs"

text \<open>
  \<open>String.prototype.trim\<close> strips WhiteSpace and LineTerminator code points from both
  ends: TAB, LF, VT, FF, CR, SPACE, NBSP, U+1680, U+2000..U+200A, U+2028, U+2029, U+202F,
  U+205F, U+3000 and U+FEFF. All of them are single code units.
\<close>

definition is_ws :: "16 word \<Rightarrow> bool" where
  "is_ws c \<longleftrightarrow>
     c = 0x0009 \<or> c = 0x000A \<or> c = 0x000B \<or> c = 0x000C \<or> c = 0x000D \<or> c = 0x0020 \<or>
     c = 0x00A0 \<or> c = 0x1680 \<or> (0x2000 \<le> c \<and> c \<le> 0x200A) \<or> c = 0x2028 \<or> c = 0x2029 \<or>
     c = 0x202F \<or> c = 0x205F \<or> c = 0x3000 \<or> c = 0xFEFF"

definition js_trim :: "jsstring \<Rightarrow> jsstring" where
  "js_trim s = rev (dropWhile is_ws (rev (dropWhile is_ws s)))"

text \<open>
  The payload \<open>response.data\<close> that axios hands over is a parsed JSON value. Numbers are
  kept as integers: the handlers only test a number for truthiness and pass it on. An
  object is the list of its own properties, keys distinct, as \<open>JSON.parse\<close> builds it.
  The api service calls \<open>axios.post\<close> without a config, so a body that is not JSON is
  not an error: axios hands it over as it came, as a string.
\<close>

datatype json =
    JNull
  | JBool bool
  | JNum int
  | JStr jsstring
  | JArr "json list"
  | JObj "(jsstring \<times> json) list"

text \<open>ToBoolean: the falsy values are \<open>null\<close>, \<open>false\<close>, \<open>0\<close> and the empty string.\<close>

fun truthy :: "json \<Rightarrow> bool" where
  "truthy JNull = False"
| "truthy (JBool b) = b"
| "truthy (JNum n) = (n \<noteq> 0)"
| "truthy (JStr s) = (s \<noteq> [])"
| "truthy (JArr xs) = True"
| "truthy (JObj kvs) = True"

text \<open>
  A thrown value is an error object; \<open>message\<close> is its \<open>message\<close> property,
  \<open>None\<close> when the property is \<open>undefined\<close>.
\<close>

datatype js_error = JsError (message: "jsstring option")

text \<open>
  The TypeError of a property read on \<open>null\<close>. The wording is the engine's (V8 here);
  nothing below depends on it.
\<close>

definition null_read_error :: js_error where
  "null_read_error = JsError (Some (ascii ''Cannot read properties of null (reading 'message')''))"

text \<open>
  The property read \<open>response.message\<close>: a TypeError on \<open>null\<close>, the property of an
  object when it has one, \<open>undefined\<close> (\<open>None\<close>) on every other value.
\<close>

fun get_message :: "json \<Rightarrow> js_error + json option" where
  "get_message JNull = Inl null_read_error"
| "get_message (JObj kvs) = Inr (map_of kvs (ascii ''message''))"
| "get_message v = Inr None"

text \<open>\<open>a || b\<close> where \<open>a\<close> may be \<open>undefined\<close>.\<close>

definition js_or :: "json option \<Rightarrow> json \<Rightarrow> json" where
  "js_or a b = (case a of None \<Rightarrow> b | Some v \<Rightarrow> if truthy v then v else b)"

subsection \<open>The api service\<close>

text \<open>
  The promise of \<open>axios.post\<close> either fulfils with a response, of which only
  \<open>data\<close> is used, or rejects with an error. Which network and HTTP conditions axios
  turns into a rejection is the library's business.
\<close>

datatype axios_result = Fulfilled json | Rejected js_error

text \<open>
  \<open>api.processQuery\<close>: returns \<open>response.data\<close>; a rejection is logged and thrown
  again.
\<close>

fun processQuery :: "axios_result \<Rightarrow> js_error + json" where
  "processQuery (Fulfilled data) = Inr data"
| "processQuery (Rejected error) = Inl error"

subsection \<open>The component state\<close>

record turn =
  role :: jsstring
  content :: json

text \<open>The body of the POST to \<open>/api/process\<close>.\<close>

record request =
  req_query :: jsstring
  req_history :: "turn list"

text \<open>
  The three \<open>useState\<close> variables, and the requests that have been posted and have not
  settled yet (each one is a suspended \<open>await\<close> of \<open>handleProcessQuery\<close>).
\<close>

record app =
  conversation :: "turn list"
  query :: jsstring
  isProcessing :: bool
  inflight :: "request list"

definition initial :: app where
  "initial = \<lparr>conversation = [], query = [], isProcessing = False, inflight = []\<rparr>"

subsection \<open>handleProcessQuery\<close>

definition userMessage :: "jsstring \<Rightarrow> turn" where
  "userMessage q = \<lparr>role = ascii ''user'', content = JStr q\<rparr>"

definition historyForApi :: "turn list \<Rightarrow> turn list" where
  "historyForApi conv = map (\<lambda>entry. \<lparr>role = role entry, content = content entry\<rparr>) conv"

text \<open>
  The synchronous part, up to the \<open>await\<close>: the guard on the trimmed query, the two
  state updates from the values of the current render, and the POST.
\<close>

definition handleProcessQuery :: "app \<Rightarrow> app" where
  "handleProcessQuery s =
     (if js_trim (query s) = [] then s
      else s\<lparr>conversation := conversation s @ [userMessage (query s)],
             isProcessing := True,
             inflight := inflight s @
               [\<lparr>req_query = query s, req_history = historyForApi (conversation s)\<rparr>]\<rparr>)"

text \<open>
  The rest of the \<open>try\<close> block, run when the promise settles: the assistant message is
  built from the response, appended to the conversation of that moment
  (\<open>setConversation(prev => ...)\<close>), and the input is emptied. A rejection, or the
  TypeError of reading \<open>message\<close> on \<open>null\<close>, leaves the block before any update.
\<close>

definition assistantMessage :: "json \<Rightarrow> js_error + turn" where
  "assistantMessage response =
     (case get_message response of
        Inl e \<Rightarrow> Inl e
      | Inr m \<Rightarrow> Inr \<lparr>role = ascii ''assistant'', content = js_or m response\<rparr>)"

definition tryBlock :: "axios_result \<Rightarrow> app \<Rightarrow> js_error + app" where
  "tryBlock res s =
     (case processQuery res of
        Inl e \<Rightarrow> Inl e
      | Inr response \<Rightarrow>
          (case assistantMessage response of
             Inl e \<Rightarrow> Inl e
           | Inr msg \<Rightarrow> Inr (s\<lparr>conversation := conversation s @ [msg], query := []\<rparr>)))"

text \<open>The \<open>catch\<close> block: \<open>`Error: ${error.message || 'Failed to process query'}`\<close>.\<close>

definition errorText :: "js_error \<Rightarrow> jsstring" where
  "errorText error =
     (case message error of
        None \<Rightarrow> ascii ''Failed to process query''
      | Some m \<Rightarrow> if m \<noteq> [] then m else ascii ''Failed to process query'')"

definition errorMessage :: "js_error \<Rightarrow> turn" where
  "errorMessage error =
     \<lparr>role = ascii ''assistant'', content = JStr (ascii ''Error: '' @ errorText error)\<rparr>"

definition catchBlock :: "js_error \<Rightarrow> app \<Rightarrow> js_error + app" where
  "catchBlock error s = Inr (s\<lparr>conversation := conversation s @ [errorMessage error]\<rparr>)"

definition finallyBlock :: "app \<Rightarrow> app" where
  "finallyBlock s = s\<lparr>isProcessing := False\<rparr>"

text \<open>
  \<open>try\<close>/\<open>catch\<close>/\<open>finally\<close> after the \<open>await\<close>. The first component is the
  exception that leaves the handler, if any; the second is the state it leaves behind.
\<close>

definition resume :: "axios_result \<Rightarrow> app \<Rightarrow> js_error option \<times> app" where
  "resume res s =
     (case tryBlock res s of
        Inr s1 \<Rightarrow> (None, finallyBlock s1)
      | Inl error \<Rightarrow>
          (case catchBlock error s of
             Inr s2 \<Rightarrow> (None, finallyBlock s2)
           | Inl e2 \<Rightarrow> (Some e2, finallyBlock s)))"

subsection \<open>handleClearHistory and handleKeyPress\<close>

definition handleClearHistory :: "app \<Rightarrow> app" where
  "handleClearHistory s = s\<lparr>conversation := []\<rparr>"

definition handleKeyPress :: "jsstring \<Rightarrow> bool \<Rightarrow> app \<Rightarrow> app" where
  "handleKeyPress key shiftKey s =
     (if key = ascii ''Enter'' \<and> \<not> shiftKey then handleProcessQuery s else s)"

subsection \<open>The rendered controls\<close>

text \<open>
  What can happen to a session: the text area changes, a key is pressed in it, one of the
  two buttons is clicked, or the posted request number \<open>i\<close> settles. Every event is
  handled by the handlers of the latest render. A control that is rendered with
  \<open>disabled\<close> delivers no event, so its handler is not run.
\<close>

datatype event =
    Change jsstring
  | KeyPress jsstring bool
  | ClickProcess
  | ClickClear
  | Settle nat axios_result

definition textarea_disabled :: "app \<Rightarrow> bool" where
  "textarea_disabled s = isProcessing s"

definition process_disabled :: "app \<Rightarrow> bool" where
  "process_disabled s \<longleftrightarrow> js_trim (query s) = [] \<or> isProcessing s"

definition clear_disabled :: "app \<Rightarrow> bool" where
  "clear_disabled s \<longleftrightarrow> length (conversation s) = 0 \<or> isProcessing s"

definition settle :: "nat \<Rightarrow> axios_result \<Rightarrow> app \<Rightarrow> app" where
  "settle i res s =
     (if i < length (inflight s)
      then snd (resume res (s\<lparr>inflight := take i (inflight s) @ drop (Suc i) (inflight s)\<rparr>))
      else s)"

fun dispatch :: "event \<Rightarrow> app \<Rightarrow> app" where
  "dispatch (Change v) s = (if textarea_disabled s then s else s\<lparr>query := v\<rparr>)"
| "dispatch (KeyPress key shiftKey) s =
     (if textarea_disabled s then s else handleKeyPress key shiftKey s)"
| "dispatch ClickProcess s = (if process_disabled s then s else handleProcessQuery s)"
| "dispatch ClickClear s = (if clear_disabled s then s else handleClearHistory s)"
| "dispatch (Settle i res) s = settle i res s"

fun run :: "event list \<Rightarrow> app \<Rightarrow> app" where
  "run [] s = s"
| "run (e # es) s = run es (dispatch e s)"

inductive reachable :: "app \<Rightarrow> bool" where
  reachable_initial: "reachable initial"
| reachable_step: "reachable s \<Longrightarrow> reachable (dispatch e s)"

subsection \<open>Notions used in the statements\<close>

text \<open>
  The assistant turn that settling with \<open>res\<close> adds: the message of the \<open>try\<close> block
  when the block completes, the message of the \<open>catch\<close> block when it throws.
\<close>

definition reply :: "axios_result \<Rightarrow> turn" where
  "reply res =
     (case processQuery res of
        Inl e \<Rightarrow> errorMessage e
      | Inr response \<Rightarrow>
          (case assistantMessage response of Inl e \<Rightarrow> errorMessage e | Inr msg \<Rightarrow> msg))"

text \<open>The \<open>try\<close> block runs to its end: the promise fulfils and the payload is not \<open>null\<close>.\<close>

fun succeeds :: "axios_result \<Rightarrow> bool" where
  "succeeds (Fulfilled response) = (response \<noteq> JNull)"
| "succeeds (Rejected error) = False"

text \<open>A conversation made of user turns, each directly followed by an assistant turn.\<close>

fun paired :: "turn list \<Rightarrow> bool" where
  "paired [] = True"
| "paired [u] = False"
| "paired (u # a # rest) \<longleftrightarrow>
     role u = ascii ''user'' \<and> role a = ascii ''assistant'' \<and> paired rest"

text \<open>
  The invariant of a session. While \<open>isProcessing\<close> holds there is exactly one posted
  request, the input still holds its query, and the conversation is the request's history
  followed by the user turn of that query. Otherwise nothing is posted and the
  conversation is paired.
\<close>

definition session_inv :: "app \<Rightarrow> bool" where
  "session_inv s =
     (if isProcessing s
      then (case inflight s of
              [r] \<Rightarrow> query s = req_query r \<and> js_trim (req_query r) \<noteq> [] \<and>
                     conversation s = req_history r @ [userMessage (req_query r)] \<and>
                     paired (req_history r)
            | _ \<Rightarrow> False)
      else inflight s = [] \<and> paired (conversation s))"

text \<open>
  One complete submission by the user: type the query, click the button, and the request
  settles with \<open>res\<close>. \<open>exchanges\<close> lists the turns that a series of them should leave.
\<close>

definition submit :: "jsstring \<Rightarrow> axios_result \<Rightarrow> event list" where
  "submit q res = [Change q, ClickProcess, Settle 0 res]"

fun submissions :: "(jsstring \<times> axios_result) list \<Rightarrow> event list" where
  "submissions [] = []"
| "submissions ((q, res) # xs) = submit q res @ submissions xs"

fun exchanges :: "(jsstring \<times> axios_result) list \<Rightarrow> turn list" where
  "exchanges [] = []"
| "exchanges ((q, res) # xs) = userMessage q # reply res # exchanges xs"

text \<open>The events that ask for a submission: the button, and Enter without Shift.\<close>

fun submits :: "event \<Rightarrow> bool" where
  "submits ClickProcess = True"
| "submits (KeyPress key shiftKey) \<longleftrightarrow> key = ascii ''Enter'' \<and> \<not> shiftKey"
| "submits e = False"

text \<open>The \<open>message\<close> property of a payload that is not \<open>null\<close>, if it has one.\<close>

fun message_field :: "json \<Rightarrow> json option" where
  "message_field (JObj kvs) = map_of kvs (ascii ''message'')"
| "message_field v = None"

text \<open>Nothing in the conversation and nothing posted.\<close>

definition cleared :: "app \<Rightarrow> bool" where
  "cleared s \<longleftrightarrow> conversation s = [] \<and> \<not> isProcessing s \<and> inflight s = []"

section \<open>Basic facts\<close>

lemma historyForApi_id: "historyForApi conv = conv"
  unfolding historyForApi_def by (induction conv) simp_all

lemma dropWhile_all_ws: "(\<forall>c\<in>set (dropWhile P q). P c) \<Longrightarrow> dropWhile P q = []"
  by (metis hd_dropWhile list.set_sel(1))

lemma js_trim_empty_iff: "js_trim q = [] \<longleftrightarrow> (\<forall>c\<in>set q. is_ws c)"
proof
  assume "js_trim q = []"
  then have "\<forall>c\<in>set (dropWhile is_ws q). is_ws c"
    by (simp add: js_trim_def)
  then have "dropWhile is_ws q = []"
    by (rule dropWhile_all_ws)
  then show "\<forall>c\<in>set q. is_ws c"
    by simp
next
  assume "\<forall>c\<in>set q. is_ws c"
  then have "dropWhile is_ws q = []"
    by simp
  then show "js_trim q = []"
    by (simp add: js_trim_def del: dropWhile_eq_Nil_conv)
qed

lemma role_reply: "role (reply res) = ascii ''assistant''"
  by (cases res)
     (auto simp: reply_def assistantMessage_def errorMessage_def split: sum.splits)

lemma role_userMessage: "role (userMessage q) = ascii ''user''"
  by (simp add: userMessage_def)

text \<open>
  What the code after the \<open>await\<close> does, in one equation: no exception leaves it, one
  turn is appended, the input is emptied on success only, and \<open>isProcessing\<close> is reset.
\<close>

lemma resume_state:
  "resume res s =
     (None, s\<lparr>conversation := conversation s @ [reply res],
              query := (if succeeds res then [] else query s),
              isProcessing := False\<rparr>)"
proof (cases res)
  case (Fulfilled response)
  then show ?thesis
    by (cases response)
       (simp_all add: resume_def tryBlock_def catchBlock_def finallyBlock_def reply_def
          assistantMessage_def)
next
  case (Rejected error)
  then show ?thesis
    by (simp add: resume_def tryBlock_def catchBlock_def finallyBlock_def reply_def)
qed

lemma paired_append: "paired xs \<Longrightarrow> paired (xs @ ys) = paired ys"
  by (induction xs rule: paired.induct) simp_all

lemma paired_roles:
  "paired xs \<Longrightarrow> t \<in> set xs \<Longrightarrow> role t = ascii ''user'' \<or> role t = ascii ''assistant''"
  by (induction xs rule: paired.induct) auto

lemma paired_exchanges: "paired (exchanges xs)"
  by (induction xs rule: exchanges.induct) (simp_all add: role_reply role_userMessage)

lemma length_exchanges: "length (exchanges xs) = 2 * length xs"
  by (induction xs rule: exchanges.induct) simp_all

subsection \<open>The session invariant\<close>

lemma inv_initial: "session_inv initial"
  by (simp add: session_inv_def initial_def)

lemma inv_handleProcessQuery:
  assumes "session_inv s" "\<not> isProcessing s"
  shows "session_inv (handleProcessQuery s)"
  using assms by (simp add: session_inv_def handleProcessQuery_def historyForApi_id)

lemma inv_settle:
  assumes "session_inv s"
  shows "session_inv (settle i res s)"
proof (cases "isProcessing s")
  case False
  with assms show ?thesis
    by (simp add: session_inv_def settle_def)
next
  case True
  with assms obtain r where r: "inflight s = [r]"
    "conversation s = req_history r @ [userMessage (req_query r)]" "paired (req_history r)"
    by (auto simp: session_inv_def split: list.splits)
  show ?thesis
  proof (cases "i < length (inflight s)")
    case False
    with assms show ?thesis by (simp add: settle_def)
  next
    case True
    with r have "i = 0" by simp
    with r show ?thesis
      by (simp add: settle_def resume_state session_inv_def paired_append
            role_reply role_userMessage)
  qed
qed

lemma inv_dispatch:
  assumes "session_inv s"
  shows "session_inv (dispatch e s)"
proof (cases e)
  case (Change v)
  with assms show ?thesis
    by (simp add: textarea_disabled_def session_inv_def)
next
  case (KeyPress key shiftKey)
  with assms show ?thesis
    by (simp add: textarea_disabled_def handleKeyPress_def inv_handleProcessQuery)
next
  case ClickProcess
  with assms show ?thesis
    by (simp add: process_disabled_def inv_handleProcessQuery)
next
  case ClickClear
  with assms show ?thesis
    by (simp add: clear_disabled_def handleClearHistory_def session_inv_def)
next
  case (Settle i res)
  with assms show ?thesis
    by (simp add: inv_settle)
qed

lemma reachable_inv: "reachable s \<Longrightarrow> session_inv s"
  by (induction rule: reachable.induct) (simp_all add: inv_initial inv_dispatch)

lemma reachable_run: "reachable s \<Longrightarrow> reachable (run es s)"
  by (induction es arbitrary: s) (simp_all add: reachable_step)

lemma run_append: "run (es @ fs) s = run fs (run es s)"
  by (induction es arbitrary: s) simp_all

lemma busy_ignores:
  assumes "isProcessing s" "\<And>i res. e \<noteq> Settle i res"
  shows "dispatch e s = s"
proof (cases e)
  case (Settle i res)
  with assms(2) show ?thesis by blast
qed (simp_all add: assms(1) textarea_disabled_def process_disabled_def clear_disabled_def)

lemma inflight_count:
  "session_inv s \<Longrightarrow> length (inflight s) = (if isProcessing s then 1 else 0)"
  by (auto simp: session_inv_def split: list.splits)

subsection \<open>Single steps in states that satisfy the invariant\<close>

lemma settle_pending:
  assumes "session_inv s" "isProcessing s"
  shows "dispatch (Settle 0 res) s =
           s\<lparr>conversation := conversation s @ [reply res],
             query := (if succeeds res then [] else query s),
             isProcessing := False, inflight := []\<rparr>"
proof -
  from assms obtain r where "inflight s = [r]"
    by (auto simp: session_inv_def split: list.splits)
  then show ?thesis
    by (simp add: settle_def resume_state)
qed

lemma click_idle:
  assumes "session_inv s" "\<not> isProcessing s" "js_trim (query s) \<noteq> []"
  shows "dispatch ClickProcess s =
           s\<lparr>conversation := conversation s @ [userMessage (query s)],
             isProcessing := True,
             inflight := [\<lparr>req_query = query s, req_history = conversation s\<rparr>]\<rparr>"
  using assms
  by (simp add: process_disabled_def handleProcessQuery_def historyForApi_id session_inv_def)

lemma reply_fulfilled:
  "response \<noteq> JNull \<Longrightarrow>
   reply (Fulfilled response) =
     \<lparr>role = ascii ''assistant'', content = js_or (message_field response) response\<rparr>"
  by (cases response) (simp_all add: reply_def assistantMessage_def)

text \<open>A property of an object is a proper part of it.\<close>

lemma size_member: "(k, m) \<in> set kvs \<Longrightarrow> size m < size (JObj kvs)"
  by (induction kvs) auto

lemma message_field_proper: "message_field response = Some m \<Longrightarrow> m \<noteq> response"
proof (cases response)
  case (JObj kvs)
  assume "message_field response = Some m"
  with JObj have "(ascii ''message'', m) \<in> set kvs"
    by (simp add: map_of_SomeD)
  then have "size m < size (JObj kvs)"
    by (rule size_member)
  with JObj show ?thesis
    by auto
qed simp_all

lemma reply_failed:
  "\<not> succeeds res \<Longrightarrow>
   \<exists>e. reply res = errorMessage e \<and> (\<forall>e'. res = Rejected e' \<longrightarrow> e = e')"
proof (cases res)
  case (Fulfilled response)
  assume "\<not> succeeds res"
  with Fulfilled have "reply res = errorMessage null_read_error"
    by (simp add: reply_def assistantMessage_def)
  with Fulfilled show ?thesis by auto
next
  case (Rejected error)
  then show ?thesis by (simp add: reply_def)
qed

lemma run_submit:
  assumes "session_inv s" "\<not> isProcessing s" "js_trim q \<noteq> []"
  shows "run (submit q res) s =
           s\<lparr>conversation := conversation s @ [userMessage q, reply res],
             query := (if succeeds res then [] else q)\<rparr>"
proof -
  let ?s1 = "s\<lparr>query := q\<rparr>"
  let ?s2 = "s\<lparr>conversation := conversation s @ [userMessage q], query := q,
               isProcessing := True,
               inflight := [\<lparr>req_query = q, req_history = conversation s\<rparr>]\<rparr>"
  have s1: "dispatch (Change q) s = ?s1"
    using assms(2) by (simp add: textarea_disabled_def)
  have inv1: "session_inv ?s1"
    using assms(1,2) by (simp add: session_inv_def)
  have s2: "dispatch ClickProcess ?s1 = ?s2"
    using click_idle [OF inv1] assms(2,3) by (simp del: dispatch.simps)
  have inv2: "session_inv ?s2"
    using assms by (simp add: session_inv_def)
  have "dispatch (Settle 0 res) ?s2 =
          s\<lparr>conversation := conversation s @ [userMessage q, reply res],
            query := (if succeeds res then [] else q)\<rparr>"
    using settle_pending [OF inv2, of res] assms(1,2)
    by (simp add: session_inv_def del: dispatch.simps)
  with s1 s2 show ?thesis
    by (simp add: submit_def del: dispatch.simps)
qed

lemma run_submissions:
  assumes "session_inv s" "\<not> isProcessing s" "\<forall>(q, res)\<in>set xs. js_trim q \<noteq> []"
  shows "conversation (run (submissions xs) s) = conversation s @ exchanges xs"
  using assms
proof (induction xs arbitrary: s rule: submissions.induct)
  case 1
  then show ?case by simp
next
  case (2 q res xs)
  let ?s' = "run (submit q res) s"
  have q: "js_trim q \<noteq> []"
    using "2.prems"(3) by simp
  have eq: "?s' = s\<lparr>conversation := conversation s @ [userMessage q, reply res],
                     query := (if succeeds res then [] else q)\<rparr>"
    using "2.prems"(1,2) q by (rule run_submit)
  have "session_inv ?s'"
    using "2.prems"(1,2) by (simp add: eq session_inv_def paired_append role_reply role_userMessage)
  moreover have "\<not> isProcessing ?s'"
    using "2.prems"(2) by (simp add: eq)
  moreover have "\<forall>(q, res)\<in>set xs. js_trim q \<noteq> []"
    using "2.prems"(3) by simp
  ultimately have "conversation (run (submissions xs) ?s') = conversation ?s' @ exchanges xs"
    by (rule "2.IH")
  then show ?case
    by (simp add: run_append eq)
qed

lemma cleared_dispatch:
  assumes "cleared s" "\<not> submits e"
  shows "cleared (dispatch e s)"
  using assms
  by (cases e)
     (auto simp: cleared_def textarea_disabled_def handleKeyPress_def clear_disabled_def
        settle_def)

lemma cleared_run:
  assumes "cleared s" "\<forall>e\<in>set es. \<not> submits e"
  shows "cleared (run es s)"
  using assms by (induction es arbitrary: s) (simp_all add: cleared_dispatch del: dispatch.simps)

text \<open>
  The handler has no test of \<open>isProcessing\<close> of its own: were it run while a request is
  outstanding, it would append and post again. Only the disabled controls keep it from
  running then.
\<close>

lemma handler_alone_is_unguarded:
  assumes "isProcessing s" "js_trim (query s) \<noteq> []"
  shows "conversation (handleProcessQuery s) = conversation s @ [userMessage (query s)]"
    and "length (inflight (handleProcessQuery s)) = Suc (length (inflight s))"
  using assms by (simp_all add: handleProcessQuery_def)

section \<open>The claims\<close>

subsection \<open>C1: the guard while a request is outstanding\<close>

text \<open>
  C1. In every state a session can reach: while \<open>isProcessing\<close> holds, a click on the
  process button, a key press in the text area (Enter included), a click on the clear
  button and an edit of the text area leave the whole state, and so the conversation,
  unchanged; \<open>isProcessing\<close> holds exactly when a request is outstanding; and at most one
  request is outstanding. The guard is the \<open>disabled\<close> attribute of the three controls.
\<close>

theorem guard_while_processing:
  assumes "reachable s"
  shows "(isProcessing s \<longrightarrow>
            dispatch ClickProcess s = s \<and> dispatch (KeyPress key shiftKey) s = s \<and>
            dispatch ClickClear s = s \<and> dispatch (Change v) s = s) \<and>
         (isProcessing s \<longleftrightarrow> inflight s \<noteq> []) \<and> length (inflight s) \<le> 1"
proof -
  have n: "length (inflight s) = (if isProcessing s then 1 else 0)"
    using assms by (simp add: reachable_inv inflight_count)
  have a: "dispatch ClickProcess s = s" if "isProcessing s"
    using that by (rule busy_ignores) simp
  have b: "dispatch (KeyPress key shiftKey) s = s" if "isProcessing s"
    using that by (rule busy_ignores) simp
  have c: "dispatch ClickClear s = s" if "isProcessing s"
    using that by (rule busy_ignores) simp
  have d: "dispatch (Change v) s = s" if "isProcessing s"
    using that by (rule busy_ignores) simp
  from n have "(isProcessing s \<longleftrightarrow> inflight s \<noteq> []) \<and> length (inflight s) \<le> 1"
    by (cases "isProcessing s") auto
  with a b c d show ?thesis
    by blast
qed

theorem guard_while_processing_witness:
  "reachable (run [Change (ascii ''hi''), ClickProcess] initial) \<and>
   isProcessing (run [Change (ascii ''hi''), ClickProcess] initial) \<and>
   dispatch ClickProcess (run [Change (ascii ''hi''), ClickProcess] initial) =
     run [Change (ascii ''hi''), ClickProcess] initial \<and>
   dispatch (KeyPress (ascii ''Enter'') False) (run [Change (ascii ''hi''), ClickProcess] initial) =
     run [Change (ascii ''hi''), ClickProcess] initial \<and>
   dispatch ClickClear (run [Change (ascii ''hi''), ClickProcess] initial) =
     run [Change (ascii ''hi''), ClickProcess] initial \<and>
   length (inflight (run [Change (ascii ''hi''), ClickProcess] initial)) \<le> 1"
proof -
  have r: "reachable (run [Change (ascii ''hi''), ClickProcess] initial)"
    by (rule reachable_run) (rule reachable_initial)
  have p: "isProcessing (run [Change (ascii ''hi''), ClickProcess] initial)"
    by code_simp
  from guard_while_processing [OF r, of "ascii ''Enter''" False] r p show ?thesis
    by blast
qed

subsection \<open>C2: the content of the assistant turn\<close>

text \<open>
  C2 says that after a successful call the content of the appended assistant turn is the
  \<open>message\<close> property of the payload, and the raw payload exactly when the payload has
  no such property. The code misses this for a \<open>message\<close> that is present and falsy.
  The payload \<open>{message: ""}\<close> is a success of the wire contract, and its \<open>message\<close>
  property is the empty string; but \<open>response.message || response\<close> takes its right
  operand, and the content of the appended turn is the whole payload object instead of
  the empty string. The turns are displayed as text, and this one holds an object.
\<close>

theorem falsy_message_falls_back_to_payload:
  "succeeds (Fulfilled (JObj [(ascii ''message'', JStr [])])) \<and>
   message_field (JObj [(ascii ''message'', JStr [])]) = Some (JStr []) \<and>
   content (last (conversation
      (run (submit (ascii ''hi'') (Fulfilled (JObj [(ascii ''message'', JStr [])]))) initial)))
     = JObj [(ascii ''message'', JStr [])] \<and>
   JObj [(ascii ''message'', JStr [])] \<noteq> JStr []"
  by code_simp

text \<open>
  For every payload that is not \<open>null\<close>, what the code appends: the \<open>message\<close>
  property when it is present and truthy, the payload otherwise. So the code does what C2
  says whenever the property is truthy or absent.
\<close>

lemma assistant_content_of_payload:
  assumes "reachable s" "isProcessing s" "response \<noteq> JNull"
  shows "\<exists>a. conversation (dispatch (Settle 0 (Fulfilled response)) s) = conversation s @ [a] \<and>
             role a = ascii ''assistant'' \<and>
             content a = (case message_field response of
                            Some m \<Rightarrow> if truthy m then m else response
                          | None \<Rightarrow> response) \<and>
             (content a = response \<longleftrightarrow>
                message_field response = None \<or>
                (\<exists>m. message_field response = Some m \<and> \<not> truthy m))"
proof -
  have "conversation (dispatch (Settle 0 (Fulfilled response)) s) =
          conversation s @ [reply (Fulfilled response)]"
    using assms by (simp add: settle_pending [of s] reachable_inv del: dispatch.simps)
  moreover have "content (reply (Fulfilled response)) =
      (case message_field response of
         Some m \<Rightarrow> if truthy m then m else response
       | None \<Rightarrow> response)"
    using assms(3) by (simp add: reply_fulfilled js_or_def)
  moreover from this have "content (reply (Fulfilled response)) = response \<longleftrightarrow>
      message_field response = None \<or> (\<exists>m. message_field response = Some m \<and> \<not> truthy m)"
    by (auto simp: message_field_proper split: option.splits)
  moreover have "role (reply (Fulfilled response)) = ascii ''assistant''"
    by (rule role_reply)
  ultimately show ?thesis
    by blast
qed

text \<open>The response \<open>{message: "hi"}\<close> gives the content \<open>"hi"\<close>.\<close>

lemma message_hi_gives_hi:
  "reachable (run [Change (ascii ''ask''), ClickProcess] initial) \<and>
   isProcessing (run [Change (ascii ''ask''), ClickProcess] initial) \<and>
   JObj [(ascii ''message'', JStr (ascii ''hi''))] \<noteq> JNull \<and>
   (\<exists>a. conversation (dispatch (Settle 0 (Fulfilled (JObj [(ascii ''message'', JStr (ascii ''hi''))])))
            (run [Change (ascii ''ask''), ClickProcess] initial)) =
          conversation (run [Change (ascii ''ask''), ClickProcess] initial) @ [a] \<and>
        role a = ascii ''assistant'' \<and> content a = JStr (ascii ''hi''))"
proof -
  have r: "reachable (run [Change (ascii ''ask''), ClickProcess] initial)"
    by (rule reachable_run) (rule reachable_initial)
  have p: "isProcessing (run [Change (ascii ''ask''), ClickProcess] initial)"
    by code_simp
  have n: "JObj [(ascii ''message'', JStr (ascii ''hi''))] \<noteq> JNull"
    by simp
  have m: "(case message_field (JObj [(ascii ''message'', JStr (ascii ''hi''))]) of
              Some m \<Rightarrow> if truthy m then m else JObj [(ascii ''message'', JStr (ascii ''hi''))]
            | None \<Rightarrow> JObj [(ascii ''message'', JStr (ascii ''hi''))]) = JStr (ascii ''hi'')"
    by (simp add: ascii_def)
  from assistant_content_of_payload [OF r p n] obtain a where
    "conversation (dispatch (Settle 0 (Fulfilled (JObj [(ascii ''message'', JStr (ascii ''hi''))])))
            (run [Change (ascii ''ask''), ClickProcess] initial)) =
          conversation (run [Change (ascii ''ask''), ClickProcess] initial) @ [a]"
    "role a = ascii ''assistant''"
    "content a = (case message_field (JObj [(ascii ''message'', JStr (ascii ''hi''))]) of
              Some m \<Rightarrow> if truthy m then m else JObj [(ascii ''message'', JStr (ascii ''hi''))]
            | None \<Rightarrow> JObj [(ascii ''message'', JStr (ascii ''hi''))])"
    by blast
  then have
    "\<exists>a. conversation (dispatch (Settle 0 (Fulfilled (JObj [(ascii ''message'', JStr (ascii ''hi''))])))
            (run [Change (ascii ''ask''), ClickProcess] initial)) =
          conversation (run [Change (ascii ''ask''), ClickProcess] initial) @ [a] \<and>
        role a = ascii ''assistant'' \<and> content a = JStr (ascii ''hi'')"
    unfolding m by blast
  with r p n show ?thesis
    by blast
qed

subsection \<open>C3: blank queries\<close>

text \<open>
  C3. When the query consists of white space only (the empty query included), the handler
  returns the state as it is: the conversation is unchanged and no request is posted. The
  same holds for the click on the button and for any key press.
\<close>

theorem blank_query_rejected:
  assumes "\<forall>c\<in>set (query s). is_ws c"
  shows "handleProcessQuery s = s \<and> dispatch ClickProcess s = s \<and>
         dispatch (KeyPress key shiftKey) s = s \<and>
         conversation (handleProcessQuery s) = conversation s \<and>
         inflight (handleProcessQuery s) = inflight s"
proof -
  from assms have "js_trim (query s) = []"
    by (simp add: js_trim_empty_iff)
  then have h: "handleProcessQuery s = s"
    by (simp add: handleProcessQuery_def)
  then show ?thesis
    by (simp add: handleKeyPress_def)
qed

theorem blank_query_rejected_witness:
  "js_trim (query (initial\<lparr>query := [0x20, 0x09, 0xA0]\<rparr>)) = [] \<and>
   handleProcessQuery (initial\<lparr>query := [0x20, 0x09, 0xA0]\<rparr>) =
     initial\<lparr>query := [0x20, 0x09, 0xA0]\<rparr> \<and>
   conversation (handleProcessQuery (initial\<lparr>query := [0x20, 0x09, 0xA0]\<rparr>)) = [] \<and>
   inflight (handleProcessQuery (initial\<lparr>query := [0x20, 0x09, 0xA0]\<rparr>)) = []"
proof -
  have h: "\<forall>c\<in>set (query (initial\<lparr>query := [0x20, 0x09, 0xA0]\<rparr>)). is_ws c"
    by (simp add: is_ws_def)
  have t: "js_trim (query (initial\<lparr>query := [0x20, 0x09, 0xA0]\<rparr>)) = []"
    using h by (simp only: js_trim_empty_iff)
  have i: "inflight (initial\<lparr>query := [0x20, 0x09, 0xA0]\<rparr>) = []"
    by (simp add: initial_def)
  have c: "conversation (initial\<lparr>query := [0x20, 0x09, 0xA0]\<rparr>) = []"
    by (simp add: initial_def)
  from blank_query_rejected [OF h] t i c show ?thesis
    by simp
qed

subsection \<open>C4: the history of the request\<close>

text \<open>
  C4. For a query that is not blank, the request that \<open>handleProcessQuery\<close> posts carries
  the query and, as history, the conversation as it was before the user turn of this
  query was appended: the history is the new conversation without its last turn, and that
  last turn is the user turn.
\<close>

theorem request_history_excludes_pending:
  assumes "js_trim (query s) \<noteq> []"
  shows "inflight (handleProcessQuery s) =
           inflight s @ [\<lparr>req_query = query s, req_history = conversation s\<rparr>] \<and>
         conversation (handleProcessQuery s) = conversation s @ [userMessage (query s)] \<and>
         req_history (last (inflight (handleProcessQuery s))) =
           butlast (conversation (handleProcessQuery s)) \<and>
         last (conversation (handleProcessQuery s)) = userMessage (query s)"
  using assms by (simp add: handleProcessQuery_def historyForApi_id)

theorem request_history_excludes_pending_witness:
  "js_trim (query (initial\<lparr>query := ascii ''hi''\<rparr>)) \<noteq> [] \<and>
   inflight (handleProcessQuery (initial\<lparr>query := ascii ''hi''\<rparr>)) =
     [\<lparr>req_query = ascii ''hi'', req_history = []\<rparr>] \<and>
   conversation (handleProcessQuery (initial\<lparr>query := ascii ''hi''\<rparr>)) = [userMessage (ascii ''hi'')]"
proof -
  have h: "js_trim (query (initial\<lparr>query := ascii ''hi''\<rparr>)) \<noteq> []"
    by code_simp
  from request_history_excludes_pending [OF h] h show ?thesis
    by (simp add: initial_def)
qed

subsection \<open>C5: failures become error turns\<close>

text \<open>
  C5, as amended. When the request of a reachable session fails, which is when the
  promise rejects (backend unreachable, status outside 2xx) or when the payload is
  \<open>null\<close> and reading its \<open>message\<close> throws, no exception leaves the handler, and
  exactly one turn is appended: an assistant turn whose content starts with \<open>Error: \<close>,
  followed by the text of the error that was thrown. The conversation then ends in the
  user turn of the query followed by that assistant turn.
\<close>

theorem failure_becomes_error_turn:
  assumes "reachable s" "isProcessing s" "\<not> succeeds res"
  shows "fst (resume res s) = None \<and>
         (\<exists>pre q e.
            (\<forall>e'. res = Rejected e' \<longrightarrow> e = e') \<and>
            conversation s = pre @ [userMessage q] \<and>
            conversation (dispatch (Settle 0 res) s) =
              pre @ [userMessage q,
                     \<lparr>role = ascii ''assistant'',
                      content = JStr (ascii ''Error: '' @ errorText e)\<rparr>])"
proof -
  have inv: "session_inv s"
    using assms(1) by (rule reachable_inv)
  with assms(2) obtain r :: request
    where r: "conversation s = req_history r @ [userMessage (req_query r)]"
    by (auto simp: session_inv_def split: list.splits)
  from assms(3) obtain e where e: "reply res = errorMessage e" "\<forall>e'. res = Rejected e' \<longrightarrow> e = e'"
    using reply_failed by blast
  have "conversation (dispatch (Settle 0 res) s) = conversation s @ [reply res]"
    using inv assms(2) by (simp add: settle_pending [of s] del: dispatch.simps)
  with r e have "conversation (dispatch (Settle 0 res) s) =
      req_history r @ [userMessage (req_query r),
        \<lparr>role = ascii ''assistant'', content = JStr (ascii ''Error: '' @ errorText e)\<rparr>]"
    by (simp add: errorMessage_def del: dispatch.simps)
  with r e(2) have "\<exists>pre q e.
            (\<forall>e'. res = Rejected e' \<longrightarrow> e = e') \<and>
            conversation s = pre @ [userMessage q] \<and>
            conversation (dispatch (Settle 0 res) s) =
              pre @ [userMessage q,
                     \<lparr>role = ascii ''assistant'',
                      content = JStr (ascii ''Error: '' @ errorText e)\<rparr>]"
    by blast
  then show ?thesis
    by (simp add: resume_state del: dispatch.simps)
qed

theorem failure_becomes_error_turn_witness:
  "reachable (run [Change (ascii ''hi''), ClickProcess] initial) \<and>
   isProcessing (run [Change (ascii ''hi''), ClickProcess] initial) \<and>
   \<not> succeeds (Rejected (JsError (Some (ascii ''Network Error'')))) \<and>
   conversation (dispatch (Settle 0 (Rejected (JsError (Some (ascii ''Network Error'')))))
      (run [Change (ascii ''hi''), ClickProcess] initial)) =
     [userMessage (ascii ''hi''),
      \<lparr>role = ascii ''assistant'', content = JStr (ascii ''Error: Network Error'')\<rparr>]"
proof -
  have r: "reachable (run [Change (ascii ''hi''), ClickProcess] initial)"
    by (rule reachable_run) (rule reachable_initial)
  have p: "isProcessing (run [Change (ascii ''hi''), ClickProcess] initial)"
    by code_simp
  have n: "\<not> succeeds (Rejected (JsError (Some (ascii ''Network Error''))))"
    by simp
  have c: "conversation (run [Change (ascii ''hi''), ClickProcess] initial) = [userMessage (ascii ''hi'')]"
    by code_simp
  have t: "ascii ''Error: '' @ errorText (JsError (Some (ascii ''Network Error''))) = ascii ''Error: Network Error''"
    by code_simp
  from failure_becomes_error_turn [OF r p n] obtain pre q e where
    e: "\<forall>e'. Rejected (JsError (Some (ascii ''Network Error''))) = Rejected e' \<longrightarrow> e = e'" and
    a: "conversation (run [Change (ascii ''hi''), ClickProcess] initial) = pre @ [userMessage q]" and
    b: "conversation (dispatch (Settle 0 (Rejected (JsError (Some (ascii ''Network Error'')))))
          (run [Change (ascii ''hi''), ClickProcess] initial)) =
        pre @ [userMessage q, \<lparr>role = ascii ''assistant'', content = JStr (ascii ''Error: '' @ errorText e)\<rparr>]"
    by blast
  from e have "e = JsError (Some (ascii ''Network Error''))"
    by simp
  moreover from a c have "pre = [] \<and> userMessage q = userMessage (ascii ''hi'')"
    by simp
  ultimately show ?thesis
    using r p n b t by (simp del: dispatch.simps run.simps)
qed

text \<open>
  The claim as first stated counts a malformed payload among the failures. It fails
  there: a body that is not JSON, such as \<open>{bad\<close>, reaches the handler as a string,
  which has no \<open>message\<close> property. The \<open>try\<close> block completes, the content of the
  appended turn is the body itself with no \<open>Error: \<close> in front, and the input is
  emptied as after any success.
\<close>

theorem malformed_payload_is_appended_raw:
  "conversation (run (submit (ascii ''hi'') (Fulfilled (JStr (ascii ''{bad'')))) initial) =
     [\<lparr>role = ascii ''user'', content = JStr (ascii ''hi'')\<rparr>,
      \<lparr>role = ascii ''assistant'', content = JStr (ascii ''{bad'')\<rparr>] \<and>
   take (length (ascii ''Error: '')) (ascii ''{bad'') \<noteq> ascii ''Error: '' \<and>
   query (run (submit (ascii ''hi'') (Fulfilled (JStr (ascii ''{bad'')))) initial) = []"
  by code_simp

subsection \<open>C6: the conversation after N submissions\<close>

text \<open>
  C6. Starting from a reachable state with an empty conversation and no request
  outstanding, after N complete submissions of queries that are not blank, whatever the
  outcome of each request, the conversation consists of the user turn of each query
  directly followed by the assistant turn of its reply: its length is 2N and it is
  paired.
\<close>

theorem conversation_after_submissions:
  assumes "reachable s" "\<not> isProcessing s" "conversation s = []"
    and "\<forall>(q, res)\<in>set xs. js_trim q \<noteq> []"
  shows "conversation (run (submissions xs) s) = exchanges xs \<and>
         length (conversation (run (submissions xs) s)) = 2 * length xs \<and>
         paired (conversation (run (submissions xs) s))"
proof -
  have "session_inv s"
    using assms(1) by (rule reachable_inv)
  then have "conversation (run (submissions xs) s) = conversation s @ exchanges xs"
    using assms(2,4) by (rule run_submissions)
  with assms(3) have "conversation (run (submissions xs) s) = exchanges xs"
    by simp
  then show ?thesis
    by (simp add: length_exchanges paired_exchanges)
qed

theorem conversation_after_submissions_witness:
  "reachable initial \<and> \<not> isProcessing initial \<and> conversation initial = [] \<and>
   js_trim (ascii ''a'') \<noteq> [] \<and> js_trim (ascii ''b'') \<noteq> [] \<and>
   conversation (run (submissions
      [(ascii ''a'', Fulfilled (JObj [(ascii ''message'', JStr (ascii ''x''))])),
       (ascii ''b'', Fulfilled (JStr (ascii ''y'')))]) initial) =
     [\<lparr>role = ascii ''user'', content = JStr (ascii ''a'')\<rparr>,
      \<lparr>role = ascii ''assistant'', content = JStr (ascii ''x'')\<rparr>,
      \<lparr>role = ascii ''user'', content = JStr (ascii ''b'')\<rparr>,
      \<lparr>role = ascii ''assistant'', content = JStr (ascii ''y'')\<rparr>] \<and>
   length (conversation (run (submissions
      [(ascii ''a'', Fulfilled (JObj [(ascii ''message'', JStr (ascii ''x''))])),
       (ascii ''b'', Fulfilled (JStr (ascii ''y'')))]) initial)) = 4"
proof -
  have i: "\<not> isProcessing initial" "conversation initial = []"
    by (simp_all add: initial_def)
  have a: "js_trim (ascii ''a'') \<noteq> []" and b: "js_trim (ascii ''b'') \<noteq> []"
    by code_simp+
  then have h: "\<forall>(q, res)\<in>set [(ascii ''a'', Fulfilled (JObj [(ascii ''message'', JStr (ascii ''x''))])),
                     (ascii ''b'', Fulfilled (JStr (ascii ''y'')))]. js_trim q \<noteq> []"
    by simp
  have x: "exchanges [(ascii ''a'', Fulfilled (JObj [(ascii ''message'', JStr (ascii ''x''))])),
                     (ascii ''b'', Fulfilled (JStr (ascii ''y'')))] =
     [\<lparr>role = ascii ''user'', content = JStr (ascii ''a'')\<rparr>,
      \<lparr>role = ascii ''assistant'', content = JStr (ascii ''x'')\<rparr>,
      \<lparr>role = ascii ''user'', content = JStr (ascii ''b'')\<rparr>,
      \<lparr>role = ascii ''assistant'', content = JStr (ascii ''y'')\<rparr>]"
    by code_simp
  from conversation_after_submissions [OF reachable_initial i h] reachable_initial i a b x show ?thesis
    by (simp del: run.simps submissions.simps exchanges.simps)
qed

subsection \<open>C7: the order of the two appends\<close>

text \<open>
  C7. In a reachable state with no request outstanding and a query that is not blank, the
  click appends the user turn at once, while the request is still outstanding. No event
  other than the settling of the request changes the state after that, so the assistant
  turn is appended only when the request settles, and it is appended behind the user
  turn. A rejection appends the error message and keeps the user turn.
\<close>

theorem optimistic_user_turn:
  assumes "reachable s" "\<not> isProcessing s" "js_trim (query s) \<noteq> []"
  shows "conversation (dispatch ClickProcess s) = conversation s @ [userMessage (query s)] \<and>
         inflight (dispatch ClickProcess s) =
           [\<lparr>req_query = query s, req_history = conversation s\<rparr>] \<and>
         (\<forall>e. (\<forall>i res. e \<noteq> Settle i res) \<longrightarrow>
              dispatch e (dispatch ClickProcess s) = dispatch ClickProcess s) \<and>
         (\<forall>res. conversation (dispatch (Settle 0 res) (dispatch ClickProcess s)) =
                  conversation s @ [userMessage (query s), reply res] \<and>
                role (reply res) = ascii ''assistant'') \<and>
         (\<forall>error. conversation (dispatch (Settle 0 (Rejected error)) (dispatch ClickProcess s)) =
                  conversation s @ [userMessage (query s), errorMessage error])"
proof -
  let ?s1 = "dispatch ClickProcess s"
  have inv: "session_inv s"
    using assms(1) by (rule reachable_inv)
  have s1: "?s1 = s\<lparr>conversation := conversation s @ [userMessage (query s)],
                     isProcessing := True,
                     inflight := [\<lparr>req_query = query s, req_history = conversation s\<rparr>]\<rparr>"
    using inv assms(2,3) by (rule click_idle)
  have inv1: "session_inv ?s1"
    using inv by (rule inv_dispatch)
  have p1: "isProcessing ?s1"
    unfolding s1 by simp
  have a: "conversation ?s1 = conversation s @ [userMessage (query s)]"
    unfolding s1 by simp
  have b: "inflight ?s1 = [\<lparr>req_query = query s, req_history = conversation s\<rparr>]"
    unfolding s1 by simp
  have c: "dispatch e ?s1 = ?s1" if "\<forall>i res. e \<noteq> Settle i res" for e
    using p1 that by (intro busy_ignores) simp_all
  have d: "conversation (dispatch (Settle 0 res) ?s1) =
             conversation s @ [userMessage (query s), reply res]" for res
    using settle_pending [OF inv1 p1, of res] a by (simp del: dispatch.simps)
  have e: "conversation (dispatch (Settle 0 (Rejected error)) ?s1) =
             conversation s @ [userMessage (query s), errorMessage error]" for error
    using d [of "Rejected error"] by (simp add: reply_def del: dispatch.simps)
  from a b c d e show ?thesis
    by (simp add: role_reply del: dispatch.simps)
qed

theorem optimistic_user_turn_witness:
  "reachable (run [Change (ascii ''hi'')] initial) \<and>
   \<not> isProcessing (run [Change (ascii ''hi'')] initial) \<and>
   js_trim (query (run [Change (ascii ''hi'')] initial)) \<noteq> [] \<and>
   conversation (dispatch ClickProcess (run [Change (ascii ''hi'')] initial)) =
     [userMessage (ascii ''hi'')] \<and>
   conversation (dispatch (Settle 0 (Rejected (JsError None)))
       (dispatch ClickProcess (run [Change (ascii ''hi'')] initial))) =
     [userMessage (ascii ''hi''), errorMessage (JsError None)]"
proof -
  have r: "reachable (run [Change (ascii ''hi'')] initial)"
    by (rule reachable_run) (rule reachable_initial)
  have p: "\<not> isProcessing (run [Change (ascii ''hi'')] initial)"
    by code_simp
  have q: "js_trim (query (run [Change (ascii ''hi'')] initial)) \<noteq> []"
    by code_simp
  have c: "conversation (run [Change (ascii ''hi'')] initial) = []"
    by code_simp
  have v: "query (run [Change (ascii ''hi'')] initial) = ascii ''hi''"
    by code_simp
  from optimistic_user_turn [OF r p q] have
    a: "conversation (dispatch ClickProcess (run [Change (ascii ''hi'')] initial)) =
          conversation (run [Change (ascii ''hi'')] initial) @
            [userMessage (query (run [Change (ascii ''hi'')] initial))]" and
    b: "conversation (dispatch (Settle 0 (Rejected (JsError None)))
          (dispatch ClickProcess (run [Change (ascii ''hi'')] initial))) =
          conversation (run [Change (ascii ''hi'')] initial) @
            [userMessage (query (run [Change (ascii ''hi'')] initial)),
             errorMessage (JsError None)]"
    by blast+
  from a b r p q show ?thesis
    unfolding c v by (simp del: dispatch.simps run.simps)
qed

subsection \<open>C8: clearing\<close>

text \<open>
  C8, as amended. In every reachable state with no request outstanding,
  \<open>handleClearHistory\<close> empties the conversation, and so does the click on the clear
  button; after the click, every sequence of events without a submission leaves the
  conversation empty.
\<close>

theorem clear_when_idle:
  assumes "reachable s" "\<not> isProcessing s" "\<forall>e\<in>set es. \<not> submits e"
  shows "conversation (handleClearHistory s) = [] \<and>
         conversation (dispatch ClickClear s) = [] \<and>
         conversation (run es (dispatch ClickClear s)) = []"
proof -
  have "session_inv s"
    using assms(1) by (rule reachable_inv)
  with assms(2) have "cleared (dispatch ClickClear s)"
    by (simp add: cleared_def session_inv_def clear_disabled_def handleClearHistory_def)
  then have "cleared (run es (dispatch ClickClear s))"
    using assms(3) by (rule cleared_run)
  moreover note \<open>cleared (dispatch ClickClear s)\<close>
  ultimately show ?thesis
    by (simp add: cleared_def handleClearHistory_def del: dispatch.simps)
qed

theorem clear_when_idle_witness:
  "reachable (run (submit (ascii ''hi'') (Fulfilled (JStr (ascii ''ok'')))) initial) \<and>
   \<not> isProcessing (run (submit (ascii ''hi'') (Fulfilled (JStr (ascii ''ok'')))) initial) \<and>
   \<not> submits (Change (ascii ''x'')) \<and> \<not> submits (KeyPress (ascii ''Enter'') True) \<and>
   \<not> submits ClickClear \<and>
   conversation (run (submit (ascii ''hi'') (Fulfilled (JStr (ascii ''ok'')))) initial) \<noteq> [] \<and>
   conversation (dispatch ClickClear
     (run (submit (ascii ''hi'') (Fulfilled (JStr (ascii ''ok'')))) initial)) = [] \<and>
   conversation (run [Change (ascii ''x''), KeyPress (ascii ''Enter'') True, ClickClear]
     (dispatch ClickClear (run (submit (ascii ''hi'') (Fulfilled (JStr (ascii ''ok'')))) initial))) = []"
proof -
  have r: "reachable (run (submit (ascii ''hi'') (Fulfilled (JStr (ascii ''ok'')))) initial)"
    by (rule reachable_run) (rule reachable_initial)
  have p: "\<not> isProcessing (run (submit (ascii ''hi'') (Fulfilled (JStr (ascii ''ok'')))) initial)"
    by code_simp
  have m: "\<not> submits (Change (ascii ''x''))" "\<not> submits (KeyPress (ascii ''Enter'') True)"
    "\<not> submits ClickClear"
    by simp_all
  then have n: "\<forall>e\<in>set [Change (ascii ''x''), KeyPress (ascii ''Enter'') True, ClickClear]. \<not> submits e"
    by simp
  have c: "conversation (run (submit (ascii ''hi'') (Fulfilled (JStr (ascii ''ok'')))) initial) \<noteq> []"
    by code_simp
  from clear_when_idle [OF r p n] r p m c show ?thesis
    by blast
qed

text \<open>
  The claim as first stated speaks of every reachable state. It fails in a reachable state
  with a request outstanding. There the clear button is disabled, so the click leaves the
  conversation as it is; and had \<open>handleClearHistory\<close> run all the same, the settling of
  the request would append a turn before any further submission.
\<close>

theorem clear_while_processing:
  "reachable (run [Change (ascii ''hi''), ClickProcess] initial) \<and>
   conversation (dispatch ClickClear (run [Change (ascii ''hi''), ClickProcess] initial)) \<noteq> [] \<and>
   conversation (run [Settle 0 (Fulfilled (JStr (ascii ''ok'')))]
      (handleClearHistory (run [Change (ascii ''hi''), ClickProcess] initial))) \<noteq> []"
proof -
  have r: "reachable (run [Change (ascii ''hi''), ClickProcess] initial)"
    by (rule reachable_run) (rule reachable_initial)
  have a: "conversation (dispatch ClickClear (run [Change (ascii ''hi''), ClickProcess] initial)) \<noteq> []"
    by code_simp
  have b: "conversation (run [Settle 0 (Fulfilled (JStr (ascii ''ok'')))]
      (handleClearHistory (run [Change (ascii ''hi''), ClickProcess] initial))) \<noteq> []"
    by code_simp
  from r a b show ?thesis
    by blast
qed

subsection \<open>C9: the roles\<close>

text \<open>
  C9. In every reachable state every turn of the conversation has the role \<open>user\<close> or
  the role \<open>assistant\<close>. The turn made from a query has the role \<open>user\<close>; the turn made
  from the outcome of a request, success or failure, has the role \<open>assistant\<close>.
\<close>

theorem roles_user_or_assistant:
  assumes "reachable s"
  shows "(\<forall>t\<in>set (conversation s). role t = ascii ''user'' \<or> role t = ascii ''assistant'') \<and>
         role (userMessage q) = ascii ''user'' \<and>
         role (reply res) = ascii ''assistant''"
proof -
  have inv: "session_inv s"
    using assms by (rule reachable_inv)
  have "role t = ascii ''user'' \<or> role t = ascii ''assistant''" if "t \<in> set (conversation s)" for t
  proof (cases "isProcessing s")
    case False
    with inv have "paired (conversation s)"
      by (simp add: session_inv_def)
    then show ?thesis
      using that by (rule paired_roles)
  next
    case True
    with inv obtain r :: request where
      r: "conversation s = req_history r @ [userMessage (req_query r)]" "paired (req_history r)"
      by (auto simp: session_inv_def split: list.splits)
    from that r(1) consider "t \<in> set (req_history r)" | "t = userMessage (req_query r)"
      by auto
    then show ?thesis
    proof cases
      case 1
      with r(2) show ?thesis by (rule paired_roles)
    next
      case 2
      then show ?thesis by (simp add: role_userMessage)
    qed
  qed
  then show ?thesis
    by (simp add: role_userMessage role_reply)
qed

theorem roles_user_or_assistant_witness:
  "reachable (run (submit (ascii ''hi'') (Rejected (JsError None)) @
               [Change (ascii ''x''), ClickProcess]) initial) \<and>
   map content (conversation (run (submit (ascii ''hi'') (Rejected (JsError None)) @
               [Change (ascii ''x''), ClickProcess]) initial)) =
     [JStr (ascii ''hi''), JStr (ascii ''Error: Failed to process query''), JStr (ascii ''x'')] \<and>
   (role (last (conversation (run (submit (ascii ''hi'') (Rejected (JsError None)) @
               [Change (ascii ''x''), ClickProcess]) initial))) = ascii ''user'' \<or>
    role (last (conversation (run (submit (ascii ''hi'') (Rejected (JsError None)) @
               [Change (ascii ''x''), ClickProcess]) initial))) = ascii ''assistant'')"
proof -
  have r: "reachable (run (submit (ascii ''hi'') (Rejected (JsError None)) @
               [Change (ascii ''x''), ClickProcess]) initial)"
    by (rule reachable_run) (rule reachable_initial)
  have c: "map content (conversation (run (submit (ascii ''hi'') (Rejected (JsError None)) @
               [Change (ascii ''x''), ClickProcess]) initial)) =
     [JStr (ascii ''hi''), JStr (ascii ''Error: Failed to process query''), JStr (ascii ''x'')]"
    by code_simp
  then have "conversation (run (submit (ascii ''hi'') (Rejected (JsError None)) @
               [Change (ascii ''x''), ClickProcess]) initial) \<noteq> []"
    by auto
  then have "last (conversation (run (submit (ascii ''hi'') (Rejected (JsError None)) @
               [Change (ascii ''x''), ClickProcess]) initial)) \<in>
             set (conversation (run (submit (ascii ''hi'') (Rejected (JsError None)) @
               [Change (ascii ''x''), ClickProcess]) initial))"
    by (rule last_in_set)
  with roles_user_or_assistant [OF r] r c show ?thesis
    by blast
qed

subsection \<open>C10: the input text\<close>

text \<open>
  C10. While a request is outstanding the input still holds the submitted query. When the
  request settles the input is emptied if it succeeded and left as it is if it failed.
  \<open>handleClearHistory\<close> leaves the input alone, and so does every event that is neither
  an edit of the text area nor the settling of a successful request.
\<close>

theorem input_cleared_on_success_only:
  assumes "reachable s" "isProcessing s"
  shows "(\<exists>r. inflight s = [r] \<and> query s = req_query r) \<and>
         query (dispatch (Settle 0 res) s) = (if succeeds res then [] else query s) \<and>
         query (handleClearHistory s) = query s \<and>
         (\<forall>s' e. (\<forall>v. e \<noteq> Change v) \<and> (\<forall>i res. e = Settle i res \<longrightarrow> \<not> succeeds res) \<longrightarrow>
                 query (dispatch e s') = query s')"
proof -
  have inv: "session_inv s"
    using assms(1) by (rule reachable_inv)
  with assms(2) have a: "\<exists>r. inflight s = [r] \<and> query s = req_query r"
    by (auto simp: session_inv_def split: list.splits)
  have b: "query (dispatch (Settle 0 res) s) = (if succeeds res then [] else query s)"
    using settle_pending [OF inv assms(2), of res] by (simp del: dispatch.simps)
  have c: "query (dispatch e s') = query s'"
    if "\<forall>v. e \<noteq> Change v" "\<forall>i res. e = Settle i res \<longrightarrow> \<not> succeeds res" for s' e
    using that
    by (cases e)
       (simp_all add: handleKeyPress_def handleProcessQuery_def handleClearHistory_def
          settle_def resume_state)
  from a b c show ?thesis
    by (simp add: handleClearHistory_def del: dispatch.simps)
qed

theorem input_cleared_on_success_only_witness:
  "reachable (run [Change (ascii ''hi''), ClickProcess] initial) \<and>
   isProcessing (run [Change (ascii ''hi''), ClickProcess] initial) \<and>
   query (dispatch (Settle 0 (Rejected (JsError None))) (run [Change (ascii ''hi''), ClickProcess] initial)) = ascii ''hi'' \<and>
   query (dispatch (Settle 0 (Fulfilled (JStr (ascii ''ok'')))) (run [Change (ascii ''hi''), ClickProcess] initial)) = []"
proof -
  have r: "reachable (run [Change (ascii ''hi''), ClickProcess] initial)"
    by (rule reachable_run) (rule reachable_initial)
  have p: "isProcessing (run [Change (ascii ''hi''), ClickProcess] initial)"
    by code_simp
  have q: "query (run [Change (ascii ''hi''), ClickProcess] initial) = ascii ''hi''"
    by code_simp
  from input_cleared_on_success_only [OF r p, of "Rejected (JsError None)"] input_cleared_on_success_only [OF r p, of "Fulfilled (JStr (ascii ''ok''))"]
    r p q show ?thesis
    by (simp del: dispatch.simps run.simps)
qed

end
